theory Spec2Isabelle
  imports Complex_Main "HOL-Library.Word"
begin

section \<open>canwarp: cylindrical-to-spherical remapping of pinhole images\<close>

text \<open>
  A shallow embedding of \<^verbatim>\<open>canwarp.py\<close>. Python floats are modelled by the real numbers and
  float operations by the exact ones, so \<^verbatim>\<open>math.cos\<close>, \<^verbatim>\<open>math.tan\<close> and \<^verbatim>\<open>math.atan\<close> are
  \<open>cos\<close>, \<open>tan\<close> and \<open>arctan\<close>. The constant \<^verbatim>\<open>math.pi\<close> is a float, and is modelled by the
  number that float is, \<open>math_pi\<close>, which lies just below \<open>pi\<close>. Every exception the source can
  raise is a value of \<open>error\<close>.

  The source is Python 2 code: it writes \<^verbatim>\<open>float(x) / d\<close> and \<^verbatim>\<open>float(t) / t_max\<close> wherever a
  quotient of two integers must not be cut, and leaves \<^verbatim>\<open>img_in.shape[1] / 2\<close> uncast. So
  \<^verbatim>\<open>/\<close> between two integers is the floor division \<open>div\<close>, and \<^verbatim>\<open>/\<close> with a float operand is
  the real quotient; both raise \<^verbatim>\<open>ZeroDivisionError\<close> on a zero divisor.
\<close>

subsection \<open>Errors and arithmetic\<close>

datatype error = ZeroDivisionError | IndexError | AttributeError

definition ebind :: "error + 'a \<Rightarrow> ('a \<Rightarrow> error + 'b) \<Rightarrow> error + 'b" where
  "ebind m f = (case m of Inl e \<Rightarrow> Inl e | Inr v \<Rightarrow> f v)"

text \<open>Float division \<^verbatim>\<open>a / b\<close>.\<close>

definition py_truediv :: "real \<Rightarrow> real \<Rightarrow> error + real" where
  "py_truediv a b = (if b = 0 then Inl ZeroDivisionError else Inr (a / b))"

text \<open>\<^verbatim>\<open>int(r)\<close> of a float cuts the fraction, towards zero.\<close>

definition py_int :: "real \<Rightarrow> int" where
  "py_int r = (if 0 \<le> r then \<lfloor>r\<rfloor> else \<lceil>r\<rceil>)"

text \<open>
  \<^verbatim>\<open>math.pi\<close> is the double \<^verbatim>\<open>0x1.921fb54442d18p+1\<close>, that is 884279719003555 / 2^48, about
  \<open>1.22e-16\<close> less than \<open>pi\<close>. Halving it is exact, so \<^verbatim>\<open>math.pi / 2\<close> is \<open>math_pi / 2\<close>, where
  the cosine is small and positive and the tangent large: the angles of the first column and
  of the first row of the grid are not singular points of \<open>sph2cyl\<close>, in the program or here.
\<close>

definition math_pi :: real where
  "math_pi = 884279719003555 / 281474976710656"

text \<open>\<^verbatim>\<open>x in range(n)\<close> for an integer \<open>x\<close>.\<close>

definition in_range :: "int \<Rightarrow> nat \<Rightarrow> bool" where
  "in_range x n \<longleftrightarrow> 0 \<le> x \<and> x < int n"

subsection \<open>The coordinate converters\<close>

text \<open>
  \<^verbatim>\<open>theta = float(x) / d\<close> and \<^verbatim>\<open>phi = math.atan(y / math.cos(theta) / d)\<close>: three divisions,
  each of which can raise.
\<close>

definition cyl2sph :: "real \<Rightarrow> real \<Rightarrow> real \<Rightarrow> error + (real \<times> real)" where
  "cyl2sph x y d =
     ebind (py_truediv x d) (\<lambda>theta.
     ebind (py_truediv y (cos theta)) (\<lambda>q.
     ebind (py_truediv q d) (\<lambda>r.
     Inr (theta, arctan r))))"

text \<open>
  \<^verbatim>\<open>return (d * theta, d * math.tan(phi) * math.cos(theta))\<close>. The source does not guard
  \<^verbatim>\<open>math.tan\<close>, which never raises on a finite float, so the function is total. Where
  \<open>cos phi = 0\<close> the tangent of a real number has no value and \<open>tan phi\<close> is an arbitrary
  number; no float is such a point, the loop of the remapper never calls \<open>sph2cyl\<close> there
  (\<open>grid_angles_regular\<close> below), and no property below depends on that number.
\<close>

definition sph2cyl :: "real \<Rightarrow> real \<Rightarrow> real \<Rightarrow> real \<times> real" where
  "sph2cyl theta phi d = (d * theta, d * tan phi * cos theta)"

subsection \<open>Images\<close>

text \<open>
  A numpy image of shape \<open>(shape0, shape1, 3)\<close> and dtype \<^verbatim>\<open>uint8\<close>: rows of pixels, a pixel
  being its three channel bytes.
\<close>

type_synonym pixel = "8 word \<times> 8 word \<times> 8 word"

record image =
  shape0 :: nat
  shape1 :: nat
  pixels :: "pixel list list"

definition wf_image :: "image \<Rightarrow> bool" where
  "wf_image img \<longleftrightarrow>
     length (pixels img) = shape0 img \<and> list_all (\<lambda>row. length row = shape1 img) (pixels img)"

definition black :: pixel where
  "black = (0, 0, 0)"

text \<open>\<^verbatim>\<open>np.zeros((p_max, t_max, 3), dtype='uint8')\<close>.\<close>

definition np_zeros :: "nat \<Rightarrow> nat \<Rightarrow> image" where
  "np_zeros m n = \<lparr>shape0 = m, shape1 = n, pixels = replicate m (replicate n black)\<rparr>"

text \<open>
  A numpy index along an axis of length \<open>n\<close>: a negative index counts from the end, and
  anything outside \<open>[-n, n)\<close> raises \<^verbatim>\<open>IndexError\<close>.
\<close>

definition np_index :: "int \<Rightarrow> nat \<Rightarrow> error + nat" where
  "np_index i n =
     (if 0 \<le> i \<and> i < int n then Inr (nat i)
      else if - int n \<le> i \<and> i < 0 then Inr (nat (i + int n))
      else Inl IndexError)"

text \<open>The read \<^verbatim>\<open>img_in[y, x]\<close>.\<close>

definition np_get :: "image \<Rightarrow> int \<Rightarrow> int \<Rightarrow> error + pixel" where
  "np_get img y x =
     ebind (np_index y (shape0 img)) (\<lambda>r.
     ebind (np_index x (shape1 img)) (\<lambda>c.
     Inr (pixels img ! r ! c)))"

text \<open>The write \<^verbatim>\<open>img_out[p, t] = v\<close>.\<close>

definition np_set :: "image \<Rightarrow> int \<Rightarrow> int \<Rightarrow> pixel \<Rightarrow> error + image" where
  "np_set img p t v =
     ebind (np_index p (shape0 img)) (\<lambda>r.
     ebind (np_index t (shape1 img)) (\<lambda>c.
     Inr (img\<lparr>pixels := (pixels img)[r := (pixels img ! r)[c := v]]\<rparr>)))"

subsection \<open>The remapping loop\<close>

text \<open>\<^verbatim>\<open>for i in range(n): body\<close>, the body updating a state and possibly raising.\<close>

fun for_loop :: "nat list \<Rightarrow> (nat \<Rightarrow> 's \<Rightarrow> error + 's) \<Rightarrow> 's \<Rightarrow> error + 's" where
  "for_loop [] body s = Inr s"
| "for_loop (i # is) body s =
     (case body i s of Inl e \<Rightarrow> Inl e | Inr s' \<Rightarrow> for_loop is body s')"

definition for_range :: "nat \<Rightarrow> (nat \<Rightarrow> 's \<Rightarrow> error + 's) \<Rightarrow> 's \<Rightarrow> error + 's" where
  "for_range n body s = for_loop [0..<n] body s"

text \<open>
  \<^verbatim>\<open>x_center = img_in.shape[1] / 2\<close> and \<^verbatim>\<open>y_center = img_in.shape[0] / 2\<close>: integer
  division, the divisor being the literal 2.
\<close>

definition x_center :: "image \<Rightarrow> int" where
  "x_center img_in = int (shape1 img_in) div 2"

definition y_center :: "image \<Rightarrow> int" where
  "y_center img_in = int (shape0 img_in) div 2"

text \<open>\<^verbatim>\<open>d = img_in.shape[1] / coverage / math.pi\<close>, the coverage being a float.\<close>

definition diameter :: "image \<Rightarrow> real \<Rightarrow> error + real" where
  "diameter img_in coverage =
     ebind (py_truediv (real (shape1 img_in)) coverage) (\<lambda>q. py_truediv q math_pi)"

text \<open>
  The first five statements of the loop body, for column \<open>t\<close> and row \<open>p\<close>: the angles
  of the cell, the cylinder point they come from, and the source coordinate \<open>(x, y)\<close>.
\<close>

definition cell_angles :: "image \<Rightarrow> nat \<Rightarrow> nat \<Rightarrow> error + (real \<times> real)" where
  "cell_angles img_in t p =
     (let theta_max = math_pi / 2;
          theta_min = - theta_max;
          phi_max = math_pi / 2;
          phi_min = - phi_max;
          t_max = shape1 img_in;
          p_max = shape1 img_in
      in ebind (py_truediv (real t) (real t_max)) (\<lambda>a.
         ebind (py_truediv (real p) (real p_max)) (\<lambda>b.
         Inr (a * (theta_max - theta_min) + theta_min, b * (phi_max - phi_min) + phi_min))))"

definition cell_source :: "image \<Rightarrow> real \<Rightarrow> nat \<Rightarrow> nat \<Rightarrow> error + (int \<times> int)" where
  "cell_source img_in d t p =
     ebind (cell_angles img_in t p) (\<lambda>(theta, phi).
       let cyl = sph2cyl theta phi d;
           x = py_int (fst cyl + real_of_int (x_center img_in));
           y = py_int (snd cyl + real_of_int (y_center img_in))
       in Inr (x, y))"

text \<open>The whole body: the guarded copy \<^verbatim>\<open>img_out[p, t] = img_in[y, x]\<close>.\<close>

definition cell_body :: "image \<Rightarrow> real \<Rightarrow> nat \<Rightarrow> nat \<Rightarrow> image \<Rightarrow> error + image" where
  "cell_body img_in d t p img_out =
     ebind (cell_source img_in d t p) (\<lambda>(x, y).
       if in_range x (shape1 img_in) \<and> in_range y (shape0 img_in)
       then ebind (np_get img_in y x) (\<lambda>v. np_set img_out (int p) (int t) v)
       else Inr img_out)"

definition img_cyl2sph :: "image \<Rightarrow> real \<Rightarrow> error + image" where
  "img_cyl2sph img_in coverage =
     ebind (diameter img_in coverage) (\<lambda>d.
       let t_max = shape1 img_in;
           p_max = shape1 img_in;
           img_out = np_zeros p_max t_max
       in for_range t_max (\<lambda>t. for_range p_max (\<lambda>p. cell_body img_in d t p)) img_out)"

subsection \<open>The file driver\<close>

text \<open>
  \<^verbatim>\<open>cv2.imread\<close> and \<^verbatim>\<open>cv2.imwrite\<close> act on a store of images by path. \<^verbatim>\<open>imread\<close> of a
  path that holds no image returns \<^verbatim>\<open>None\<close>, whose \<^verbatim>\<open>shape\<close> the remapper then fails to read.
\<close>

definition file_cyl2sph ::
  "(string \<rightharpoonup> image) \<Rightarrow> string \<Rightarrow> string \<Rightarrow> real \<Rightarrow> error + (string \<rightharpoonup> image)" where
  "file_cyl2sph fs file_in file_out coverage =
     (let coverage = (if coverage \<le> 0 \<or> coverage > 1 then 0.9 else coverage)
      in case fs file_in of
           None \<Rightarrow> Inl AttributeError
         | Some img \<Rightarrow> ebind (img_cyl2sph img coverage) (\<lambda>img2. Inr (fs(file_out \<mapsto> img2))))"

subsection \<open>What the loop computes, cell by cell\<close>

text \<open>
  The source coordinate of a cell as a closed formula; \<open>cell_source_ok\<close> below shows that it
  is what \<open>cell_source\<close> returns for every column of the grid.
\<close>

definition src_of :: "image \<Rightarrow> real \<Rightarrow> nat \<Rightarrow> nat \<Rightarrow> int \<times> int" where
  "src_of img d t p =
     (let cyl = sph2cyl (real t / real (shape1 img) * math_pi - math_pi / 2)
                        (real p / real (shape1 img) * math_pi - math_pi / 2) d
      in (py_int (fst cyl + real_of_int (x_center img)), py_int (snd cyl + real_of_int (y_center img))))"

text \<open>The pixel a cell holds after its iteration: the copy when the guard holds, else what it held.\<close>

definition cell_pixel :: "image \<Rightarrow> int \<times> int \<Rightarrow> pixel \<Rightarrow> pixel" where
  "cell_pixel img xy old =
     (if in_range (fst xy) (shape1 img) \<and> in_range (snd xy) (shape0 img)
      then pixels img ! nat (snd xy) ! nat (fst xy) else old)"

text \<open>An \<open>n\<close> by \<open>n\<close> image whose rows agree with its shape: the shape of the output buffer.\<close>

definition sized :: "nat \<Rightarrow> image \<Rightarrow> bool" where
  "sized n out \<longleftrightarrow> shape0 out = n \<and> shape1 out = n \<and> wf_image out"

text \<open>Two images: an all-white 4 by 4 one, and a 3 by 3 one whose centre pixel is unlike its first.\<close>

definition white :: pixel where
  "white = (255, 255, 255)"

definition white4 :: image where
  "white4 = \<lparr>shape0 = 4, shape1 = 4, pixels = replicate 4 (replicate 4 white)\<rparr>"

definition img3 :: image where
  "img3 = \<lparr>shape0 = 3, shape1 = 3,
            pixels = [[(10, 10, 10), black, black], [black, (50, 50, 50), black], [black, black, black]]\<rparr>"

text \<open>Reading one cell of a result, \<^verbatim>\<open>img[p, t]\<close>, when there is a result.\<close>

definition cell_of :: "error + image \<Rightarrow> nat \<Rightarrow> nat \<Rightarrow> error + pixel" where
  "cell_of r p t = ebind r (\<lambda>img. np_get img (int p) (int t))"

text \<open>The partial sums of the series of the arctangent, to bound \<open>pi\<close> by Machin's formula.\<close>

definition atn_sum :: "real \<Rightarrow> nat \<Rightarrow> real" where
  "atn_sum x n = (\<Sum>i<n. (- 1) ^ i * (1 / real (i * 2 + 1) * x ^ (i * 2 + 1)))"

section \<open>Properties\<close>

subsection \<open>The constant \<open>math_pi\<close>\<close>

lemma arctan_between:
  fixes x :: real
  assumes "0 \<le> x" "x \<le> 1"
  shows "atn_sum x (2 * n) \<le> arctan x" and "arctan x \<le> atn_sum x (2 * m + 1)"
proof -
  let ?a = "\<lambda>n. 1 / real (n * 2 + 1) * x ^ (n * 2 + 1)"
  have ab: "\<bar>x\<bar> \<le> 1" using assms by simp
  have z: "?a \<longlonglongrightarrow> 0" using ab by (rule zeroseq_arctan_series)
  have p: "0 \<le> ?a k" for k using assms by simp
  have d: "?a (Suc k) \<le> ?a k" for k
  proof -
    have "k * 2 + 1 \<le> Suc k * 2 + 1" by simp
    then have "x ^ (Suc k * 2 + 1) \<le> x ^ (k * 2 + 1)"
      using assms by (rule power_decreasing)
    moreover have "1 / real (Suc k * 2 + 1) \<le> 1 / real (k * 2 + 1)"
      by (simp add: field_simps)
    ultimately show ?thesis
      using assms by (intro mult_mono) simp_all
  qed
  have s: "arctan x = (\<Sum>k. (- 1) ^ k * ?a k)"
    using ab by (rule arctan_series)
  show "atn_sum x (2 * n) \<le> arctan x"
    unfolding s atn_sum_def by (rule summable_Leibniz'(2)[OF z p d])
  show "arctan x \<le> atn_sum x (2 * m + 1)"
    unfolding s atn_sum_def by (rule summable_Leibniz'(4)[OF z p d])
qed

lemma pi_machin: "pi = 16 * arctan (1 / 5) - 4 * arctan (1 / 239)"
  using machin by simp

lemma math_pi_less_pi: "math_pi < pi"
proof -
  have l: "atn_sum (1 / 5) (2 * 6) \<le> arctan (1 / 5)"
    by (rule arctan_between) simp_all
  have u: "arctan (1 / 239) \<le> atn_sum (1 / 239) (2 * 1 + 1)"
    by (rule arctan_between) simp_all
  have "math_pi < 16 * atn_sum (1 / 5) (2 * 6) - 4 * atn_sum (1 / 239) (2 * 1 + 1)"
    by (simp add: math_pi_def atn_sum_def lessThan_nat_numeral lessThan_Suc power_divide)
  also have "\<dots> \<le> pi"
    using l u pi_machin by linarith
  finally show ?thesis .
qed

lemma pi_less: "pi < math_pi + 1 / 1000"
proof -
  have u: "arctan (1 / 5) \<le> atn_sum (1 / 5) (2 * 1 + 1)"
    by (rule arctan_between) simp_all
  have l: "atn_sum (1 / 239) (2 * 1) \<le> arctan (1 / 239)"
    by (rule arctan_between) simp_all
  have "pi \<le> 16 * atn_sum (1 / 5) (2 * 1 + 1) - 4 * atn_sum (1 / 239) (2 * 1)"
    using l u pi_machin by linarith
  also have "\<dots> < math_pi + 1 / 1000"
    by (simp add: math_pi_def atn_sum_def lessThan_nat_numeral lessThan_Suc power_divide)
  finally show ?thesis .
qed

lemma math_pi_pos: "0 < math_pi"
  by (simp add: math_pi_def)

lemma math_pi_ge_zero [simp]: "0 \<le> math_pi"
  by (simp add: math_pi_def)

lemma math_pi_neq_zero [simp]: "math_pi \<noteq> 0"
  by (simp add: math_pi_def)

lemma half_math_pi: "0 < math_pi / 2" "math_pi / 2 < pi / 2"
  using math_pi_pos math_pi_less_pi by simp_all

text \<open>At \<open>math_pi / 2\<close> the cosine is positive and below 1/2000, and the sine is above 9/10.\<close>

lemma cos_half_math_pi: "0 < cos (math_pi / 2)" "cos (math_pi / 2) < 1 / 2000"
proof -
  show "0 < cos (math_pi / 2)"
    using half_math_pi by (intro cos_gt_zero_pi) simp_all
  have "cos (math_pi / 2) = sin (pi / 2 - math_pi / 2)"
    by (simp add: sin_diff)
  also have "\<dots> \<le> pi / 2 - math_pi / 2"
    using half_math_pi by (intro sin_x_le_x) simp
  also have "\<dots> < 1 / 2000"
    using pi_less by simp
  finally show "cos (math_pi / 2) < 1 / 2000" .
qed

lemma sin_half_math_pi: "9 / 10 < sin (math_pi / 2)" "sin (math_pi / 2) \<le> 1"
proof -
  let ?s = "sin (math_pi / 2)" and ?c = "cos (math_pi / 2)"
  have pos: "0 < ?s"
    using half_math_pi pi_gt_zero by (intro sin_gt_zero) linarith+
  have "?c * ?c < 1 / 2000 * (1 / 2000)"
    using cos_half_math_pi by (intro mult_strict_mono) linarith+
  moreover have "?s * ?s + ?c * ?c = 1"
    using sin_cos_squared_add[of "math_pi / 2"] by (simp only: power2_eq_square)
  ultimately have sq: "81 / 100 < ?s * ?s"
    by linarith
  show "9 / 10 < ?s"
  proof (rule ccontr)
    assume "\<not> 9 / 10 < ?s"
    then have "?s \<le> 9 / 10" by linarith
    then have "?s * ?s \<le> 9 / 10 * (9 / 10)"
      using pos by (intro mult_mono) linarith+
    then show False using sq by linarith
  qed
  show "?s \<le> 1"
    by (rule sin_le_one)
qed

subsection \<open>Loops and cells\<close>

lemma ebind_Inr [simp]: "ebind (Inr v) f = f v"
  by (simp add: ebind_def)

lemma ebind_Inl [simp]: "ebind (Inl e) f = Inl e"
  by (simp add: ebind_def)

lemma for_loop_upt_inv:
  assumes "I i s" and "i \<le> n"
    and step: "\<And>k s. i \<le> k \<Longrightarrow> k < n \<Longrightarrow> I k s \<Longrightarrow> \<exists>s'. body k s = Inr s' \<and> I (Suc k) s'"
  shows "\<exists>s'. for_loop [i..<n] body s = Inr s' \<and> I n s'"
  using assms
proof (induction "n - i" arbitrary: i s)
  case 0
  then show ?case by simp
next
  case (Suc m)
  then have lt: "i < n" by simp
  from Suc.prems(3)[OF le_refl lt Suc.prems(1)]
  obtain s1 where s1: "body i s = Inr s1" "I (Suc i) s1" by blast
  have "m = n - Suc i" using Suc.hyps(2) by simp
  from Suc.hyps(1)[OF this s1(2)] lt Suc.prems(3)
  obtain s' where "for_loop [Suc i..<n] body s1 = Inr s'" "I n s'"
    by (metis Suc_leD Suc_leI)
  then show ?case using lt s1 by (simp add: upt_conv_Cons)
qed

lemma for_range_inv:
  assumes "I 0 s"
    and "\<And>k s. k < n \<Longrightarrow> I k s \<Longrightarrow> \<exists>s'. body k s = Inr s' \<and> I (Suc k) s'"
  shows "\<exists>s'. for_range n body s = Inr s' \<and> I n s'"
  unfolding for_range_def using for_loop_upt_inv[of I 0 s n body] assms by simp

lemma cell_angles_ok:
  assumes "t < shape1 img"
  shows "cell_angles img t p =
           Inr (real t / real (shape1 img) * math_pi - math_pi / 2, real p / real (shape1 img) * math_pi - math_pi / 2)"
  using assms by (simp add: cell_angles_def py_truediv_def Let_def)

lemma cell_source_ok:
  assumes "t < shape1 img"
  shows "cell_source img d t p = Inr (src_of img d t p)"
  using assms by (simp add: cell_source_def cell_angles_ok src_of_def Let_def)

lemma np_get_in_range:
  assumes "in_range x (shape1 img)" "in_range y (shape0 img)"
  shows "np_get img y x = Inr (pixels img ! nat y ! nat x)"
  using assms by (simp add: np_get_def np_index_def in_range_def)

lemma np_set_ok:
  assumes "sized n out" "p < n" "t < n"
  shows "np_set out (int p) (int t) v =
           Inr (out\<lparr>pixels := (pixels out)[p := (pixels out ! p)[t := v]]\<rparr>)"
  using assms by (simp add: np_set_def np_index_def sized_def)

lemma sized_update:
  assumes "sized n out" "p < n"
  shows "sized n (out\<lparr>pixels := (pixels out)[p := (pixels out ! p)[t := v]]\<rparr>)"
  using assms
  by (auto simp add: sized_def wf_image_def list_all_length nth_list_update)

lemma nth_update2:
  assumes "sized n out" "p < n" "t < n" "p' < n" "t' < n"
  shows "(pixels out)[p := (pixels out ! p)[t := v]] ! p' ! t' =
           (if p' = p \<and> t' = t then v else pixels out ! p' ! t')"
  using assms
  by (auto simp add: sized_def wf_image_def list_all_length nth_list_update)

lemma cell_body_ok:
  assumes "sized (shape1 img) out" "t < shape1 img" "p < shape1 img"
  shows "\<exists>out'. cell_body img d t p out = Inr out' \<and> sized (shape1 img) out' \<and>
           (\<forall>p' t'. p' < shape1 img \<longrightarrow> t' < shape1 img \<longrightarrow>
              pixels out' ! p' ! t' =
                (if p' = p \<and> t' = t then cell_pixel img (src_of img d t p) (pixels out ! p ! t)
                 else pixels out ! p' ! t'))"
proof (cases "in_range (fst (src_of img d t p)) (shape1 img) \<and>
              in_range (snd (src_of img d t p)) (shape0 img)")
  case True
  let ?v = "pixels img ! nat (snd (src_of img d t p)) ! nat (fst (src_of img d t p))"
  let ?out = "out\<lparr>pixels := (pixels out)[p := (pixels out ! p)[t := ?v]]\<rparr>"
  have "cell_body img d t p out = Inr ?out"
    using True assms
    by (simp add: cell_body_def cell_source_ok np_get_in_range np_set_ok split_beta)
  moreover have "sized (shape1 img) ?out"
    using assms(1,3) by (rule sized_update)
  moreover have "\<forall>p' t'. p' < shape1 img \<longrightarrow> t' < shape1 img \<longrightarrow>
              pixels ?out ! p' ! t' =
                (if p' = p \<and> t' = t then cell_pixel img (src_of img d t p) (pixels out ! p ! t)
                 else pixels out ! p' ! t')"
    using True assms by (simp add: nth_update2 cell_pixel_def)
  ultimately show ?thesis by blast
next
  case False
  then have "cell_body img d t p out = Inr out"
    using assms by (auto simp add: cell_body_def cell_source_ok split_beta)
  moreover have "cell_pixel img (src_of img d t p) (pixels out ! p ! t) = pixels out ! p ! t"
    using False by (auto simp add: cell_pixel_def)
  ultimately show ?thesis using assms(1) by auto
qed

lemma sized_np_zeros: "sized n (np_zeros n n)"
  by (simp add: sized_def np_zeros_def wf_image_def list_all_length)

lemma np_zeros_black: "p < n \<Longrightarrow> t < n \<Longrightarrow> pixels (np_zeros n n) ! p ! t = black"
  by (simp add: np_zeros_def)

lemma column_loop:
  assumes "sized (shape1 img) out0" "t < shape1 img"
  shows "\<exists>out. for_range (shape1 img) (\<lambda>p. cell_body img d t p) out0 = Inr out \<and>
           sized (shape1 img) out \<and>
           (\<forall>p' t'. p' < shape1 img \<longrightarrow> t' < shape1 img \<longrightarrow>
              pixels out ! p' ! t' =
                (if t' = t then cell_pixel img (src_of img d t p') (pixels out0 ! p' ! t)
                 else pixels out0 ! p' ! t'))"
proof -
  define I where "I k out \<longleftrightarrow> sized (shape1 img) out \<and>
           (\<forall>p' t'. p' < shape1 img \<longrightarrow> t' < shape1 img \<longrightarrow>
              pixels out ! p' ! t' =
                (if t' = t \<and> p' < k then cell_pixel img (src_of img d t p') (pixels out0 ! p' ! t)
                 else pixels out0 ! p' ! t'))" for k out
  have init: "I 0 out0"
    using assms(1) by (simp add: I_def)
  have step: "\<exists>s'. cell_body img d t k s = Inr s' \<and> I (Suc k) s'"
    if "k < shape1 img" "I k s" for k s
  proof -
    from that(2) have sz: "sized (shape1 img) s" by (simp add: I_def)
    from cell_body_ok[OF sz assms(2) that(1), of d]
    obtain s' where s': "cell_body img d t k s = Inr s'" "sized (shape1 img) s'"
      "\<forall>p' t'. p' < shape1 img \<longrightarrow> t' < shape1 img \<longrightarrow>
              pixels s' ! p' ! t' =
                (if p' = k \<and> t' = t then cell_pixel img (src_of img d t k) (pixels s ! k ! t)
                 else pixels s ! p' ! t')"
      by blast
    have "I (Suc k) s'"
      unfolding I_def
    proof (intro conjI allI impI)
      show "sized (shape1 img) s'" by (rule s'(2))
    next
      fix p' t' assume b: "p' < shape1 img" "t' < shape1 img"
      have old: "pixels s ! p' ! t' =
                (if t' = t \<and> p' < k then cell_pixel img (src_of img d t p') (pixels out0 ! p' ! t)
                 else pixels out0 ! p' ! t')"
        using that(2) b by (simp add: I_def)
      have oldk: "pixels s ! k ! t = pixels out0 ! k ! t"
        using that assms(2) by (simp add: I_def)
      show "pixels s' ! p' ! t' =
                (if t' = t \<and> p' < Suc k then cell_pixel img (src_of img d t p') (pixels out0 ! p' ! t)
                 else pixels out0 ! p' ! t')"
        using s'(3) b old oldk by (auto simp add: less_Suc_eq)
    qed
    with s'(1) show ?thesis by blast
  qed
  from for_range_inv[of I out0 "shape1 img" "\<lambda>p. cell_body img d t p", OF init step]
  obtain out where "for_range (shape1 img) (\<lambda>p. cell_body img d t p) out0 = Inr out" "I (shape1 img) out"
    by blast
  then show ?thesis by (auto simp add: I_def)
qed

lemma image_loop:
  shows "\<exists>out. for_range (shape1 img) (\<lambda>t. for_range (shape1 img) (\<lambda>p. cell_body img d t p))
                  (np_zeros (shape1 img) (shape1 img)) = Inr out \<and>
           sized (shape1 img) out \<and>
           (\<forall>p t. p < shape1 img \<longrightarrow> t < shape1 img \<longrightarrow>
              pixels out ! p ! t = cell_pixel img (src_of img d t p) black)"
proof -
  define J where "J k out \<longleftrightarrow> sized (shape1 img) out \<and>
           (\<forall>p t. p < shape1 img \<longrightarrow> t < shape1 img \<longrightarrow>
              pixels out ! p ! t =
                (if t < k then cell_pixel img (src_of img d t p) black else black))" for k out
  have init: "J 0 (np_zeros (shape1 img) (shape1 img))"
    by (simp add: J_def sized_np_zeros np_zeros_black)
  have step: "\<exists>s'. for_range (shape1 img) (\<lambda>p. cell_body img d k p) s = Inr s' \<and> J (Suc k) s'"
    if "k < shape1 img" "J k s" for k s
  proof -
    from that(2) have sz: "sized (shape1 img) s" by (simp add: J_def)
    from column_loop[OF sz that(1), of d]
    obtain s' where s': "for_range (shape1 img) (\<lambda>p. cell_body img d k p) s = Inr s'"
      "sized (shape1 img) s'"
      "\<forall>p' t'. p' < shape1 img \<longrightarrow> t' < shape1 img \<longrightarrow>
              pixels s' ! p' ! t' =
                (if t' = k then cell_pixel img (src_of img d k p') (pixels s ! p' ! k)
                 else pixels s ! p' ! t')"
      by blast
    have "J (Suc k) s'"
      unfolding J_def
    proof (intro conjI allI impI)
      show "sized (shape1 img) s'" by (rule s'(2))
    next
      fix p t assume b: "p < shape1 img" "t < shape1 img"
      have old: "pixels s ! p ! t =
                (if t < k then cell_pixel img (src_of img d t p) black else black)"
        using that(2) b by (simp add: J_def)
      have oldk: "pixels s ! p ! k = black"
        using that b by (simp add: J_def)
      show "pixels s' ! p ! t =
                (if t < Suc k then cell_pixel img (src_of img d t p) black else black)"
        using s'(3) b old oldk by (auto simp add: less_Suc_eq)
    qed
    with s'(1) show ?thesis by blast
  qed
  from for_range_inv[of J "np_zeros (shape1 img) (shape1 img)" "shape1 img"
        "\<lambda>t. for_range (shape1 img) (\<lambda>p. cell_body img d t p)", OF init step]
  obtain out where "for_range (shape1 img) (\<lambda>t. for_range (shape1 img) (\<lambda>p. cell_body img d t p))
                  (np_zeros (shape1 img) (shape1 img)) = Inr out" "J (shape1 img) out"
    by blast
  then show ?thesis by (auto simp add: J_def)
qed

lemma diameter_ok:
  assumes "coverage \<noteq> 0"
  shows "diameter img coverage = Inr (real (shape1 img) / coverage / math_pi)"
  using assms by (simp add: diameter_def py_truediv_def)

lemma img_cyl2sph_ok:
  assumes "coverage \<noteq> 0"
  shows "\<exists>out. img_cyl2sph img coverage = Inr out \<and> sized (shape1 img) out \<and>
           (\<forall>p t. p < shape1 img \<longrightarrow> t < shape1 img \<longrightarrow>
              pixels out ! p ! t =
                cell_pixel img (src_of img (real (shape1 img) / coverage / math_pi) t p) black)"
  using image_loop[of img "real (shape1 img) / coverage / math_pi"] assms
  by (simp add: img_cyl2sph_def diameter_ok Let_def)

subsection \<open>The remapped image\<close>

text \<open>
  Claim C3 (copy or black). For a well-formed image, a coverage in \<open>(0, 1]\<close> and a cell
  \<open>(p, t)\<close> of the output grid, the remapper returns an image, and the pixel at \<open>(p, t)\<close> is the
  input pixel at the cell's source coordinate \<open>(y, x)\<close> when \<open>0 \<le> x < W\<close> and \<open>0 \<le> y < H\<close>,
  and \<open>(0, 0, 0)\<close> otherwise.
\<close>

theorem copy_or_black:
  assumes "wf_image img" "0 < coverage" "coverage \<le> 1" "p < shape1 img" "t < shape1 img"
  shows "\<exists>d x y out.
           diameter img coverage = Inr d \<and> cell_source img d t p = Inr (x, y) \<and>
           img_cyl2sph img coverage = Inr out \<and>
           pixels out ! p ! t =
             (if (0 \<le> x \<and> x < int (shape1 img)) \<and> (0 \<le> y \<and> y < int (shape0 img))
              then pixels img ! nat y ! nat x else (0, 0, 0))"
proof -
  let ?d = "real (shape1 img) / coverage / math_pi"
  from assms(2) have c: "coverage \<noteq> 0" by simp
  from img_cyl2sph_ok[OF c, of img]
  obtain out where out: "img_cyl2sph img coverage = Inr out"
    "pixels out ! p ! t = cell_pixel img (src_of img ?d t p) black"
    using assms(4,5) by blast
  have "cell_source img ?d t p = Inr (fst (src_of img ?d t p), snd (src_of img ?d t p))"
    using assms(5) by (simp add: cell_source_ok)
  moreover have "diameter img coverage = Inr ?d"
    using c by (rule diameter_ok)
  moreover have "pixels out ! p ! t =
             (if (0 \<le> fst (src_of img ?d t p) \<and> fst (src_of img ?d t p) < int (shape1 img)) \<and>
                 (0 \<le> snd (src_of img ?d t p) \<and> snd (src_of img ?d t p) < int (shape0 img))
              then pixels img ! nat (snd (src_of img ?d t p)) ! nat (fst (src_of img ?d t p))
              else (0, 0, 0))"
    using out(2) by (simp add: cell_pixel_def in_range_def black_def)
  ultimately show ?thesis using out(1) by blast
qed

theorem copy_or_black_witness:
  "wf_image white4 \<and> (0::real) < 1 \<and> (1::real) \<le> 1 \<and> (2::nat) < shape1 white4 \<and>
   (\<exists>d x y out.
           diameter white4 1 = Inr d \<and> cell_source white4 d 2 2 = Inr (x, y) \<and>
           img_cyl2sph white4 1 = Inr out \<and>
           pixels out ! 2 ! 2 =
             (if (0 \<le> x \<and> x < int (shape1 white4)) \<and> (0 \<le> y \<and> y < int (shape0 white4))
              then pixels white4 ! nat y ! nat x else (0, 0, 0)))"
proof -
  have h: "wf_image white4" "(0::real) < 1" "(1::real) \<le> 1" "(2::nat) < shape1 white4"
    by (simp_all add: white4_def wf_image_def list_all_length)
  from copy_or_black[OF h(1) h(2) h(3) h(4) h(4)] h show ?thesis by blast
qed

text \<open>
  Claim C4 (output shape). For an image of width \<open>W \<ge> 1\<close> and height \<open>H \<ge> 1\<close> and a coverage
  in \<open>(0, 1]\<close>, the remapper returns an image of shape \<open>(W, W, 3)\<close>: \<open>W\<close> rows of \<open>W\<close> pixels,
  each pixel three bytes.
\<close>

theorem output_shape:
  assumes "wf_image img" "1 \<le> shape1 img" "1 \<le> shape0 img" "0 < coverage" "coverage \<le> 1"
  shows "\<exists>out. img_cyl2sph img coverage = Inr out \<and>
           shape0 out = shape1 img \<and> shape1 out = shape1 img \<and>
           length (pixels out) = shape1 img \<and>
           (\<forall>row \<in> set (pixels out). length row = shape1 img)"
proof -
  from assms(4) have c: "coverage \<noteq> 0" by simp
  from img_cyl2sph_ok[OF c, of img]
  obtain out where "img_cyl2sph img coverage = Inr out" "sized (shape1 img) out"
    by blast
  then show ?thesis
    by (auto simp add: sized_def wf_image_def list_all_iff)
qed

theorem output_shape_witness:
  "wf_image img3 \<and> 1 \<le> shape1 img3 \<and> 1 \<le> shape0 img3 \<and> (0::real) < 1 \<and> (1::real) \<le> 1 \<and>
   (\<exists>out. img_cyl2sph img3 1 = Inr out \<and>
           shape0 out = shape1 img3 \<and> shape1 out = shape1 img3 \<and>
           length (pixels out) = shape1 img3 \<and>
           (\<forall>row \<in> set (pixels out). length row = shape1 img3))"
proof -
  have h: "wf_image img3" "1 \<le> shape1 img3" "1 \<le> shape0 img3" "(0::real) < 1" "(1::real) \<le> 1"
    by (simp_all add: img3_def wf_image_def)
  from output_shape[OF h] h show ?thesis by blast
qed



subsection \<open>The coordinate converters\<close>

text \<open>
  Claim C2 (inverse law). For \<open>d > 0\<close> and angles \<open>theta\<close> and \<open>phi\<close> strictly between
  \<open>-\<pi>/2\<close> and \<open>\<pi>/2\<close>, converting to the cylinder and back returns the angles: \<open>cyl2sph\<close> of the
  pair \<open>sph2cyl theta phi d\<close>, with the same \<open>d\<close>, raises nothing and is \<open>(theta, phi)\<close>.
\<close>

theorem inverse_law:
  assumes "0 < d" "- (pi / 2) < theta" "theta < pi / 2" "- (pi / 2) < phi" "phi < pi / 2"
  shows "cyl2sph (fst (sph2cyl theta phi d)) (snd (sph2cyl theta phi d)) d = Inr (theta, phi)"
proof -
  from assms(2,3) have c: "cos theta \<noteq> 0"
    using cos_gt_zero_pi[of theta] by simp
  from assms(1) have d: "d \<noteq> 0" by simp
  have "arctan (d * tan phi * cos theta / cos theta / d) = arctan (tan phi)"
    using c d by simp
  also have "\<dots> = phi"
    using assms(4,5) by (rule arctan_tan)
  finally show ?thesis
    using c d by (simp add: cyl2sph_def sph2cyl_def py_truediv_def)
qed

theorem inverse_law_witness:
  "(0::real) < 2 \<and> - (pi / 2) < pi / 4 \<and> pi / 4 < pi / 2 \<and> - (pi / 2) < (0::real) \<and> (0::real) < pi / 2 \<and>
   cyl2sph (fst (sph2cyl (pi / 4) 0 2)) (snd (sph2cyl (pi / 4) 0 2)) 2 = Inr (pi / 4, 0)"
proof -
  have h: "(0::real) < 2" "- (pi / 2) < pi / 4" "pi / 4 < pi / 2" "- (pi / 2) < (0::real)" "(0::real) < pi / 2"
    by simp_all
  from inverse_law[OF h] h show ?thesis by blast
qed

text \<open>
  Claim C6 (formulas of \<open>cyl2sph\<close>). For \<open>d > 0\<close>, \<open>cyl2sph x y d\<close> is
  \<open>(x / d, arctan (y / cos (x / d) / d))\<close> when \<open>cos (x / d)\<close> is not zero, and fails with the
  unguarded division by zero when it is.
\<close>

theorem cyl2sph_formula:
  assumes "0 < d"
  shows "cyl2sph x y d =
           (if cos (x / d) = 0 then Inl ZeroDivisionError
            else Inr (x / d, arctan (y / cos (x / d) / d)))"
  using assms by (simp add: cyl2sph_def py_truediv_def)

theorem cyl2sph_formula_witness:
  "(0::real) < 2 \<and> cyl2sph 0 3 2 = Inr (0, arctan (3 / 2)) \<and> cyl2sph pi 3 2 = Inl ZeroDivisionError"
  using cyl2sph_formula[of 2 0 3] cyl2sph_formula[of 2 pi 3] by simp

subsection \<open>The angles of the grid\<close>

text \<open>
  Claim C9 says that every angle of the grid lies strictly inside \<open>(-\<pi>/2, \<pi>/2)\<close>, the \<open>\<pi>\<close>
  of the claim being the program's \<^verbatim>\<open>math.pi\<close>. The first column and the first row are at
  \<open>-math_pi / 2\<close> itself.
\<close>

theorem open_interval_counterexample:
  "cell_angles white4 0 0 = Inr (- (math_pi / 2), - (math_pi / 2)) \<and> \<not> (- (math_pi / 2) < - (math_pi / 2 :: real))"
  by (simp add: cell_angles_ok white4_def)

text \<open>
  Claim C9, amended (half-open interval). For every cell \<open>(p, t)\<close> of the grid,
  \<open>theta = t / W \<sqdot> \<pi> - \<pi>/2\<close> and \<open>phi = p / W \<sqdot> \<pi> - \<pi>/2\<close> lie in \<open>[-\<pi>/2, \<pi>/2)\<close>, with
  \<^verbatim>\<open>math.pi\<close> for \<open>\<pi>\<close>; the lower end is reached exactly in column 0 (for \<open>theta\<close>) and in
  row 0 (for \<open>phi\<close>).
\<close>

theorem half_open_interval:
  assumes "t < shape1 img" "p < shape1 img"
  shows "\<exists>theta phi. cell_angles img t p = Inr (theta, phi) \<and>
           theta = real t / real (shape1 img) * math_pi - math_pi / 2 \<and>
           phi = real p / real (shape1 img) * math_pi - math_pi / 2 \<and>
           - (math_pi / 2) \<le> theta \<and> theta < math_pi / 2 \<and> - (math_pi / 2) \<le> phi \<and> phi < math_pi / 2 \<and>
           (- (math_pi / 2) < theta \<longleftrightarrow> 0 < t) \<and> (- (math_pi / 2) < phi \<longleftrightarrow> 0 < p)"
proof -
  have r: "0 \<le> real k / real (shape1 img) * math_pi \<and> real k / real (shape1 img) * math_pi < math_pi \<and>
           (0 < real k / real (shape1 img) * math_pi \<longleftrightarrow> 0 < k)"
    if "k < shape1 img" for k
  proof -
    from that have w: "0 < real (shape1 img)" by simp
    from that have "real k / real (shape1 img) < 1" by simp
    then have "real k / real (shape1 img) * math_pi < 1 * math_pi"
      using math_pi_pos by (simp only: mult_less_cancel_right_pos)
    moreover have "0 \<le> real k / real (shape1 img) * math_pi" by simp
    moreover have "0 < real k / real (shape1 img) * math_pi \<longleftrightarrow> 0 < k"
      using w math_pi_pos by (simp add: zero_less_mult_iff zero_less_divide_iff)
    ultimately show ?thesis by simp
  qed
  define a where "a = real t / real (shape1 img) * math_pi"
  define b where "b = real p / real (shape1 img) * math_pi"
  have ca: "cell_angles img t p = Inr (a - math_pi / 2, b - math_pi / 2)"
    using assms(1) by (simp only: cell_angles_ok a_def b_def)
  have ra: "0 \<le> a \<and> a < math_pi \<and> (0 < a \<longleftrightarrow> 0 < t)"
    using r[OF assms(1)] by (simp only: a_def)
  have rb: "0 \<le> b \<and> b < math_pi \<and> (0 < b \<longleftrightarrow> 0 < p)"
    using r[OF assms(2)] by (simp only: b_def)
  have "- (math_pi / 2) \<le> a - math_pi / 2 \<and> a - math_pi / 2 < math_pi / 2 \<and>
        - (math_pi / 2) \<le> b - math_pi / 2 \<and> b - math_pi / 2 < math_pi / 2 \<and>
        (- (math_pi / 2) < a - math_pi / 2 \<longleftrightarrow> 0 < t) \<and> (- (math_pi / 2) < b - math_pi / 2 \<longleftrightarrow> 0 < p)"
    using ra rb by auto
  then show ?thesis
    using ca unfolding a_def b_def by blast
qed

theorem half_open_interval_witness:
  "(0::nat) < shape1 white4 \<and> (1::nat) < shape1 white4 \<and>
   (\<exists>theta phi. cell_angles white4 0 1 = Inr (theta, phi) \<and>
           theta = real 0 / real (shape1 white4) * math_pi - math_pi / 2 \<and>
           phi = real 1 / real (shape1 white4) * math_pi - math_pi / 2 \<and>
           - (math_pi / 2) \<le> theta \<and> theta < math_pi / 2 \<and> - (math_pi / 2) \<le> phi \<and> phi < math_pi / 2 \<and>
           (- (math_pi / 2) < theta \<longleftrightarrow> 0 < (0::nat)) \<and> (- (math_pi / 2) < phi \<longleftrightarrow> 0 < (1::nat)))"
proof -
  have h: "(0::nat) < shape1 white4" "(1::nat) < shape1 white4"
    by (simp_all add: white4_def)
  from half_open_interval[OF h] h show ?thesis by blast
qed

text \<open>
  Every angle of the grid lies strictly between \<open>-\<pi>/2\<close> and \<open>\<pi>/2\<close> for the number \<open>pi\<close>, since
  \<open>math_pi\<close> is below it: the cosines are positive, and the loop calls \<open>sph2cyl\<close> at no singular
  point.
\<close>

lemma grid_angles_regular:
  assumes "t < shape1 img" "p < shape1 img"
  shows "\<exists>theta phi. cell_angles img t p = Inr (theta, phi) \<and> 0 < cos theta \<and> 0 < cos phi"
proof -
  have r: "0 < cos (real k / real (shape1 img) * math_pi - math_pi / 2)"
    if "k < shape1 img" for k
  proof -
    from that have "real k / real (shape1 img) < 1" by simp
    then have "real k / real (shape1 img) * math_pi < 1 * math_pi"
      using math_pi_pos by (simp only: mult_less_cancel_right_pos)
    moreover have "0 \<le> real k / real (shape1 img) * math_pi"
      by simp
    ultimately have "- (pi / 2) < real k / real (shape1 img) * math_pi - math_pi / 2"
      "real k / real (shape1 img) * math_pi - math_pi / 2 < pi / 2"
      using half_math_pi by linarith+
    then show ?thesis by (rule cos_gt_zero_pi)
  qed
  from r[OF assms(1)] r[OF assms(2)] show ?thesis
    using assms(1) by (simp only: cell_angles_ok) blast
qed

subsection \<open>Centres and source coordinates\<close>

lemma py_int_of_int: "py_int (real_of_int k) = k"
  by (simp add: py_int_def)

lemma py_int_eq_0: "0 \<le> r \<Longrightarrow> r < 1 \<Longrightarrow> py_int r = 0"
  by (simp add: py_int_def floor_eq_iff)

lemma py_int_neg: "r < - 1 \<Longrightarrow> py_int r < 0"
  by (simp add: py_int_def ceiling_less_iff)

lemma src_of_eq:
  "src_of img d t p =
     (py_int (d * (real t / real (shape1 img) * math_pi - math_pi / 2) + real_of_int (x_center img)),
      py_int (d * tan (real p / real (shape1 img) * math_pi - math_pi / 2) *
                cos (real t / real (shape1 img) * math_pi - math_pi / 2) + real_of_int (y_center img)))"
  unfolding src_of_def sph2cyl_def Let_def by (simp only: fst_conv snd_conv)

lemma cell_of_img_cyl2sph:
  assumes "coverage \<noteq> 0" "p < shape1 img" "t < shape1 img"
  shows "cell_of (img_cyl2sph img coverage) p t =
           Inr (cell_pixel img (src_of img (real (shape1 img) / coverage / math_pi) t p) black)"
proof -
  from img_cyl2sph_ok[OF assms(1), of img]
  obtain out where out: "img_cyl2sph img coverage = Inr out" "sized (shape1 img) out"
    "pixels out ! p ! t = cell_pixel img (src_of img (real (shape1 img) / coverage / math_pi) t p) black"
    using assms(2,3) by blast
  have "in_range (int t) (shape1 out)" "in_range (int p) (shape0 out)"
    using out(2) assms(2,3) by (simp_all add: sized_def in_range_def)
  then have "np_get out (int p) (int t) = Inr (pixels out ! p ! t)"
    using np_get_in_range[of "int t" out "int p"] by simp
  then show ?thesis
    using out(1,3) by (simp add: cell_of_def)
qed

text \<open>
  Claim C5 (centres by integer division). \<open>x_center\<close> is the floor of \<open>W / 2\<close> and
  \<open>y_center\<close> the floor of \<open>H / 2\<close>; these floors are what the loop adds to the converted
  coordinates before the integer cast; for an odd dimension the centre is \<open>(n - 1) / 2\<close>, not the
  exact half.
\<close>

theorem centers_floor:
  assumes "t < shape1 img"
  shows "x_center img = \<lfloor>real (shape1 img) / 2\<rfloor> \<and> y_center img = \<lfloor>real (shape0 img) / 2\<rfloor> \<and>
         (\<exists>theta phi. cell_angles img t p = Inr (theta, phi) \<and>
            cell_source img d t p =
              Inr (py_int (fst (sph2cyl theta phi d) + real_of_int \<lfloor>real (shape1 img) / 2\<rfloor>),
                   py_int (snd (sph2cyl theta phi d) + real_of_int \<lfloor>real (shape0 img) / 2\<rfloor>))) \<and>
         (odd (shape1 img) \<longrightarrow> real_of_int (x_center img) = (real (shape1 img) - 1) / 2) \<and>
         (odd (shape0 img) \<longrightarrow> real_of_int (y_center img) = (real (shape0 img) - 1) / 2)"
proof -
  have fl: "\<lfloor>real n / 2\<rfloor> = int n div 2" for n
    using floor_divide_of_nat_eq[where ?'a = real, of n 2] by (simp add: zdiv_int)
  have od: "real_of_int (int n div 2) = (real n - 1) / 2" if "odd n" for n
  proof -
    from that obtain k where "n = 2 * k + 1" by (auto elim: oddE)
    then show ?thesis by simp
  qed
  have "cell_source img d t p =
              Inr (py_int (fst (sph2cyl (real t / real (shape1 img) * math_pi - math_pi / 2)
                                        (real p / real (shape1 img) * math_pi - math_pi / 2) d)
                           + real_of_int (x_center img)),
                   py_int (snd (sph2cyl (real t / real (shape1 img) * math_pi - math_pi / 2)
                                        (real p / real (shape1 img) * math_pi - math_pi / 2) d)
                           + real_of_int (y_center img)))"
    using assms by (simp add: cell_source_ok src_of_def Let_def)
  then show ?thesis
    using cell_angles_ok[OF assms, of p] by (auto simp add: fl x_center_def y_center_def od)
qed

theorem centers_floor_witness:
  "(1::nat) < shape1 img3 \<and> x_center img3 = 1 \<and> y_center img3 = 1 \<and>
   real_of_int (x_center img3) \<noteq> real (shape1 img3) / 2 \<and>
   (\<exists>theta phi. cell_angles img3 1 1 = Inr (theta, phi) \<and>
            cell_source img3 1 1 1 =
              Inr (py_int (fst (sph2cyl theta phi 1) + real_of_int \<lfloor>real (shape1 img3) / 2\<rfloor>),
                   py_int (snd (sph2cyl theta phi 1) + real_of_int \<lfloor>real (shape0 img3) / 2\<rfloor>)))"
proof -
  have h: "(1::nat) < shape1 img3" by (simp add: img3_def)
  have o: "odd (shape1 img3)" by (simp add: img3_def)
  from centers_floor[OF h, of 1 1] o
  have "x_center img3 = \<lfloor>real (shape1 img3) / 2\<rfloor>" "y_center img3 = \<lfloor>real (shape0 img3) / 2\<rfloor>"
    "real_of_int (x_center img3) = (real (shape1 img3) - 1) / 2"
    "\<exists>theta phi. cell_angles img3 1 1 = Inr (theta, phi) \<and>
            cell_source img3 1 1 1 =
              Inr (py_int (fst (sph2cyl theta phi 1) + real_of_int \<lfloor>real (shape1 img3) / 2\<rfloor>),
                   py_int (snd (sph2cyl theta phi 1) + real_of_int \<lfloor>real (shape0 img3) / 2\<rfloor>))"
    by blast+
  then show ?thesis using h by (simp add: img3_def)
qed

subsection \<open>The centre of the grid\<close>

lemma src_of_centre:
  assumes "even (shape1 img)" "0 < shape1 img"
  shows "src_of img d (shape1 img div 2) (shape1 img div 2) = (x_center img, y_center img)"
proof -
  from assms(1) obtain k where k: "shape1 img = 2 * k" by (auto elim: evenE)
  with assms(2) have k0: "0 < k" by simp
  have z: "real (shape1 img div 2) / real (shape1 img) * math_pi - math_pi / 2 = 0"
    using k k0 by simp
  show ?thesis
    unfolding src_of_def z by (simp add: sph2cyl_def py_int_of_int)
qed

text \<open>
  Claim C7 says that the cell at row and column \<open>W div 2\<close> receives the input pixel at
  \<open>(y_center, x_center)\<close>. For the 3 by 3 image \<open>img3\<close> and coverage 1 the centre cell has azimuth and
  elevation \<open>-math_pi / 6\<close>, its source coordinate is \<open>(0, 0)\<close>, and it receives the first pixel of the
  input, not the centre one.
\<close>

theorem centre_mapping_counterexample:
  "cell_of (img_cyl2sph img3 1) (shape1 img3 div 2) (shape1 img3 div 2) = Inr (10, 10, 10) \<and>
   pixels img3 ! nat (y_center img3) ! nat (x_center img3) = (50, 50, 50)"
proof -
  have th: "real 1 / real (shape1 img3) * math_pi - math_pi / 2 = - (math_pi / 6)"
    by (simp add: img3_def)
  have r: "0 < math_pi / 6" "math_pi / 6 < pi / 2"
    using math_pi_pos math_pi_less_pi by simp_all
  have c: "cos (math_pi / 6) \<noteq> 0"
    using cos_gt_zero_pi[of "math_pi / 6"] r by simp
  have s0: "0 < sin (math_pi / 6)"
    using r pi_gt_zero by (intro sin_gt_zero) simp_all
  have s1: "sin (math_pi / 6) \<le> math_pi / 6"
    using r by (intro sin_x_le_x) simp
  have y: "3 / math_pi * tan (- (math_pi / 6)) * cos (- (math_pi / 6)) =
             - (3 / math_pi * sin (math_pi / 6))"
    using c by (simp add: tan_def)
  have b0: "0 < 3 / math_pi * sin (math_pi / 6)"
    using s0 math_pi_pos by simp
  have "3 / math_pi * sin (math_pi / 6) \<le> 3 / math_pi * (math_pi / 6)"
    using s1 by (intro mult_left_mono) simp_all
  then have b1: "3 / math_pi * sin (math_pi / 6) \<le> 1 / 2"
    by simp
  have fy: "py_int (3 / math_pi * tan (- (math_pi / 6)) * cos (- (math_pi / 6)) + real_of_int 1) = 0"
    unfolding y using b0 b1 by (intro py_int_eq_0) simp_all
  have fx: "py_int (3 / math_pi * - (math_pi / 6) + real_of_int 1) = 0"
    by (intro py_int_eq_0) simp_all
  have d: "real (shape1 img3) / 1 / math_pi = 3 / math_pi"
    by (simp add: img3_def)
  have xc: "x_center img3 = 1" and yc: "y_center img3 = 1"
    by (simp_all add: img3_def x_center_def y_center_def)
  have "src_of img3 (real (shape1 img3) / 1 / math_pi) 1 1 = (0, 0)"
    unfolding src_of_eq th d xc yc fx fy ..
  then have "cell_pixel img3 (src_of img3 (real (shape1 img3) / 1 / math_pi) 1 1) black = (10, 10, 10)"
    by (simp add: cell_pixel_def in_range_def img3_def)
  moreover have "cell_of (img_cyl2sph img3 1) 1 1 =
                   Inr (cell_pixel img3 (src_of img3 (real (shape1 img3) / 1 / math_pi) 1 1) black)"
    by (rule cell_of_img_cyl2sph) (simp_all add: img3_def)
  ultimately show ?thesis
    by (simp add: img3_def x_center_def y_center_def)
qed

text \<open>
  Claim C7, amended (centre mapping for even widths). For a well-formed image of even width
  \<open>W \<ge> 2\<close>, height \<open>H \<ge> 1\<close> and a coverage in \<open>(0, 1]\<close>, the cell at row and column \<open>W div 2\<close>
  has the source coordinate \<open>(x_center, y_center)\<close> and receives the input pixel there.
\<close>

theorem centre_mapping_even:
  assumes "wf_image img" "even (shape1 img)" "0 < shape1 img" "0 < shape0 img"
    and "0 < coverage" "coverage \<le> 1"
  shows "cell_of (img_cyl2sph img coverage) (shape1 img div 2) (shape1 img div 2) =
           Inr (pixels img ! nat (y_center img) ! nat (x_center img)) \<and>
         (\<exists>d. diameter img coverage = Inr d \<and>
            cell_source img d (shape1 img div 2) (shape1 img div 2) = Inr (x_center img, y_center img))"
proof -
  let ?d = "real (shape1 img) / coverage / math_pi"
  let ?c = "shape1 img div 2"
  from assms(5) have c: "coverage \<noteq> 0" by simp
  from assms(3) have lt: "?c < shape1 img" by simp
  have src: "src_of img ?d ?c ?c = (x_center img, y_center img)"
    using assms(2,3) by (rule src_of_centre)
  have "in_range (x_center img) (shape1 img)" "in_range (y_center img) (shape0 img)"
    using assms(3,4) by (simp_all add: in_range_def x_center_def y_center_def)
  then have "cell_pixel img (src_of img ?d ?c ?c) black =
               pixels img ! nat (y_center img) ! nat (x_center img)"
    unfolding cell_pixel_def src by simp
  then have "cell_of (img_cyl2sph img coverage) ?c ?c =
               Inr (pixels img ! nat (y_center img) ! nat (x_center img))"
    using cell_of_img_cyl2sph[OF c lt lt] by (simp only:)
  moreover have "diameter img coverage = Inr ?d"
    using c by (rule diameter_ok)
  moreover have "cell_source img ?d ?c ?c = Inr (x_center img, y_center img)"
    using lt by (simp only: cell_source_ok src)
  ultimately show ?thesis by blast
qed

theorem centre_mapping_even_witness:
  "wf_image white4 \<and> even (shape1 white4) \<and> 0 < shape1 white4 \<and> 0 < shape0 white4 \<and>
   (0::real) < 1 \<and> (1::real) \<le> 1 \<and>
   cell_of (img_cyl2sph white4 1) (shape1 white4 div 2) (shape1 white4 div 2) =
           Inr (pixels white4 ! nat (y_center white4) ! nat (x_center white4)) \<and>
         (\<exists>d. diameter white4 1 = Inr d \<and>
            cell_source white4 d (shape1 white4 div 2) (shape1 white4 div 2) =
              Inr (x_center white4, y_center white4))"
proof -
  have h: "wf_image white4" "even (shape1 white4)" "0 < shape1 white4" "0 < shape0 white4"
    "(0::real) < 1" "(1::real) \<le> 1"
    by (simp_all add: white4_def wf_image_def list_all_length)
  from centre_mapping_even[OF h] h show ?thesis by blast
qed

subsection \<open>The all-white 4 by 4 image\<close>

text \<open>
  The corner cell \<open>t = 0\<close>, \<open>p = 0\<close> has \<open>theta = phi = -math_pi / 2\<close>. There
  \<open>tan phi * cos theta\<close> is \<open>-sin (math_pi / 2)\<close>, just above \<open>-1\<close>, so \<open>y\<close> is about \<open>-1.27\<close>
  and the source coordinate is \<open>(0, 0)\<close>.
\<close>

lemma src_of_white4_corner: "src_of white4 (real (shape1 white4) / 1 / math_pi) 0 0 = (0, 0)"
proof -
  have th: "real 0 / real (shape1 white4) * math_pi - math_pi / 2 = - (math_pi / 2)"
    by simp
  have c: "cos (math_pi / 2) \<noteq> 0"
    using cos_half_math_pi(1) by simp
  have y: "4 / math_pi * tan (- (math_pi / 2)) * cos (- (math_pi / 2)) =
             - (4 / math_pi * sin (math_pi / 2))"
    using c by (simp add: tan_def)
  have q: "5 / 4 < 4 / math_pi" "4 / math_pi < 4 / 3"
    by (simp_all add: math_pi_def)
  have "5 / 4 * (9 / 10) < 4 / math_pi * sin (math_pi / 2)"
    using q(1) sin_half_math_pi(1) math_pi_pos by (intro mult_strict_mono) simp_all
  then have b0: "1 < 4 / math_pi * sin (math_pi / 2)"
    by simp
  have "4 / math_pi * sin (math_pi / 2) \<le> 4 / math_pi * 1"
    by (intro mult_left_mono) simp_all
  then have b1: "4 / math_pi * sin (math_pi / 2) < 2"
    using q(2) by simp
  have fy: "py_int (4 / math_pi * tan (- (math_pi / 2)) * cos (- (math_pi / 2)) + real_of_int 2) = 0"
    unfolding y using b0 b1 by (intro py_int_eq_0) simp_all
  have fx: "py_int (4 / math_pi * - (math_pi / 2) + real_of_int 2) = 0"
    by (intro py_int_eq_0) simp_all
  have d: "real (shape1 white4) / 1 / math_pi = 4 / math_pi"
    by (simp add: white4_def)
  have xc: "x_center white4 = 2" and yc: "y_center white4 = 2"
    by (simp_all add: white4_def x_center_def y_center_def)
  show ?thesis
    unfolding src_of_eq th d xc yc fx fy ..
qed

lemma white4_corner: "cell_of (img_cyl2sph white4 1) 0 0 = Inr (255, 255, 255)"
proof -
  have "cell_pixel white4 (src_of white4 (real (shape1 white4) / 1 / math_pi) 0 0) black = (255, 255, 255)"
    unfolding src_of_white4_corner
    by (simp add: cell_pixel_def in_range_def white4_def white_def)
  moreover have "cell_of (img_cyl2sph white4 1) 0 0 =
                   Inr (cell_pixel white4 (src_of white4 (real (shape1 white4) / 1 / math_pi) 0 0) black)"
    by (rule cell_of_img_cyl2sph) (simp_all add: white4_def)
  ultimately show ?thesis by (simp only:)
qed

text \<open>
  The next cell of the first row, \<open>t = 1\<close>, \<open>p = 0\<close>, has \<open>theta = -math_pi / 4\<close> and
  \<open>phi = -math_pi / 2\<close>: the tangent is beyond \<open>-1800\<close> and nothing cancels it, the source row is
  far below zero, and the cell keeps the black of the buffer.
\<close>

lemma src_of_white4_first_row:
  "snd (src_of white4 (real (shape1 white4) / 1 / math_pi) 1 0) < 0"
proof -
  have th: "real 1 / real (shape1 white4) * math_pi - math_pi / 2 = - (math_pi / 4)"
    by (simp add: white4_def)
  have ph: "real 0 / real (shape1 white4) * math_pi - math_pi / 2 = - (math_pi / 2)"
    by simp
  have "1800 * cos (math_pi / 2) < sin (math_pi / 2)"
    using cos_half_math_pi(2) sin_half_math_pi(1) by simp
  then have T: "1800 < tan (math_pi / 2)"
    using cos_half_math_pi(1) by (simp add: tan_def pos_less_divide_eq)
  have "cos (pi / 3) \<le> cos (math_pi / 4)"
    using math_pi_pos math_pi_less_pi by (intro cos_monotone_0_pi_le) simp_all
  then have C: "1 / 2 \<le> cos (math_pi / 4)"
    by (simp add: cos_60)
  have q: "5 / 4 < 4 / math_pi"
    by (simp add: math_pi_def)
  have "5 / 4 * 1800 < 4 / math_pi * tan (math_pi / 2)"
    using q T math_pi_pos by (intro mult_strict_mono) simp_all
  then have P: "2250 < 4 / math_pi * tan (math_pi / 2)"
    by simp
  have "2250 * (1 / 2) \<le> 4 / math_pi * tan (math_pi / 2) * cos (math_pi / 4)"
  proof (rule mult_mono)
    show "2250 \<le> 4 / math_pi * tan (math_pi / 2)" using P by linarith
    show "1 / 2 \<le> cos (math_pi / 4)" by (rule C)
    show "0 \<le> 4 / math_pi * tan (math_pi / 2)" using P by linarith
    show "(0::real) \<le> 1 / 2" by simp
  qed
  then have y: "4 / math_pi * tan (- (math_pi / 2)) * cos (- (math_pi / 4)) + real_of_int 2 < - 1"
    by simp
  have d: "real (shape1 white4) / 1 / math_pi = 4 / math_pi"
    by (simp add: white4_def)
  have yc: "y_center white4 = 2"
    by (simp add: white4_def y_center_def)
  have "py_int (4 / math_pi * tan (- (math_pi / 2)) * cos (- (math_pi / 4)) + real_of_int 2) < 0"
    using y by (rule py_int_neg)
  then show ?thesis
    unfolding src_of_eq th ph d yc by (simp only: snd_conv)
qed

lemma white4_first_row: "cell_of (img_cyl2sph white4 1) 0 1 = Inr (0, 0, 0)"
proof -
  have "cell_pixel white4 (src_of white4 (real (shape1 white4) / 1 / math_pi) 1 0) black = (0, 0, 0)"
    using src_of_white4_first_row by (simp add: cell_pixel_def in_range_def black_def)
  moreover have "cell_of (img_cyl2sph white4 1) 0 1 =
                   Inr (cell_pixel white4 (src_of white4 (real (shape1 white4) / 1 / math_pi) 1 0) black)"
    by (rule cell_of_img_cyl2sph) (simp_all add: white4_def)
  ultimately show ?thesis by (simp only:)
qed

text \<open>
  Claim C8 says that for the all-white 4 by 4 image and coverage 1 the corner cell \<open>t = 0\<close>,
  \<open>p = 0\<close> is black. Its source coordinate is in bounds and the cell is white.
\<close>

theorem white4_corner_counterexample:
  "cell_of (img_cyl2sph white4 1) 0 0 = Inr (255, 255, 255) \<and>
   (255, 255, 255) \<noteq> ((0, 0, 0) :: pixel)"
  using white4_corner by simp

text \<open>
  Claim C8, amended. For the all-white 4 by 4 image and coverage 1 the remapper returns a 4 by 4
  image in which the cell \<open>t = 2\<close>, \<open>p = 2\<close> is white; the corner cell \<open>t = 0\<close>, \<open>p = 0\<close> is
  white too, its source coordinate being \<open>(0, 0)\<close>; and the cell \<open>t = 1\<close>, \<open>p = 0\<close> of the first
  row is black, its source row being negative.
\<close>

theorem white4_scenario:
  "(\<exists>out. img_cyl2sph white4 1 = Inr out \<and> shape0 out = 4 \<and> shape1 out = 4) \<and>
   cell_of (img_cyl2sph white4 1) 2 2 = Inr (255, 255, 255) \<and>
   cell_of (img_cyl2sph white4 1) 0 0 = Inr (255, 255, 255) \<and>
   cell_source white4 (4 / math_pi) 0 0 = Inr (0, 0) \<and>
   cell_of (img_cyl2sph white4 1) 0 1 = Inr (0, 0, 0) \<and>
   (\<exists>x y. cell_source white4 (4 / math_pi) 1 0 = Inr (x, y) \<and> y < 0)"
proof (intro conjI)
  have "\<exists>out. img_cyl2sph white4 1 = Inr out \<and> sized (shape1 white4) out"
    using img_cyl2sph_ok[of 1 white4] by auto
  then show "\<exists>out. img_cyl2sph white4 1 = Inr out \<and> shape0 out = 4 \<and> shape1 out = 4"
    by (auto simp add: sized_def white4_def)
next
  have e: "even (shape1 white4)" "0 < shape1 white4"
    by (simp_all add: white4_def)
  have "src_of white4 (real (shape1 white4) / 1 / math_pi) (shape1 white4 div 2) (shape1 white4 div 2) =
          (x_center white4, y_center white4)"
    using e by (rule src_of_centre)
  then have "cell_pixel white4
               (src_of white4 (real (shape1 white4) / 1 / math_pi) (shape1 white4 div 2) (shape1 white4 div 2))
               black = (255, 255, 255)"
    by (simp add: cell_pixel_def in_range_def white4_def white_def x_center_def y_center_def)
  moreover have "cell_of (img_cyl2sph white4 1) (shape1 white4 div 2) (shape1 white4 div 2) =
                   Inr (cell_pixel white4
                     (src_of white4 (real (shape1 white4) / 1 / math_pi) (shape1 white4 div 2) (shape1 white4 div 2))
                     black)"
    by (rule cell_of_img_cyl2sph) (simp_all add: white4_def)
  moreover have "shape1 white4 div 2 = 2"
    by (simp add: white4_def)
  ultimately show "cell_of (img_cyl2sph white4 1) 2 2 = Inr (255, 255, 255)"
    by (simp only:)
next
  show "cell_of (img_cyl2sph white4 1) 0 0 = Inr (255, 255, 255)"
    by (rule white4_corner)
next
  have "(0::nat) < shape1 white4"
    by (simp add: white4_def)
  then have "cell_source white4 (real (shape1 white4) / 1 / math_pi) 0 0 = Inr (0, 0)"
    by (simp only: cell_source_ok src_of_white4_corner)
  then show "cell_source white4 (4 / math_pi) 0 0 = Inr (0, 0)"
    by (simp add: white4_def)
next
  show "cell_of (img_cyl2sph white4 1) 0 1 = Inr (0, 0, 0)"
    by (rule white4_first_row)
next
  have "(1::nat) < shape1 white4"
    by (simp add: white4_def)
  then have "cell_source white4 (real (shape1 white4) / 1 / math_pi) 1 0 =
               Inr (src_of white4 (real (shape1 white4) / 1 / math_pi) 1 0)"
    by (rule cell_source_ok)
  then have "cell_source white4 (4 / math_pi) 1 0 =
               Inr (fst (src_of white4 (real (shape1 white4) / 1 / math_pi) 1 0),
                    snd (src_of white4 (real (shape1 white4) / 1 / math_pi) 1 0))"
    by (simp add: white4_def)
  then show "\<exists>x y. cell_source white4 (4 / math_pi) 1 0 = Inr (x, y) \<and> y < 0"
    using src_of_white4_first_row by blast
qed

subsection \<open>The coverage fallback\<close>

lemma img_cyl2sph_zero: "img_cyl2sph img 0 = Inl ZeroDivisionError"
  by (simp add: img_cyl2sph_def diameter_def py_truediv_def)

text \<open>
  Claim C1 says that the remapper itself replaces a coverage outside \<open>(0, 1]\<close> by 0.9 and
  completes. It has no such test: with coverage 0 the division that derives \<open>d\<close> raises.
\<close>

theorem remap_no_fallback_counterexample:
  "img_cyl2sph white4 0 = Inl ZeroDivisionError"
  by (rule img_cyl2sph_zero)

text \<open>
  Claim C1, amended (the fallback is the file driver's). For an image stored at the input path
  and a coverage that is at most 0 or more than 1, \<open>file_cyl2sph\<close> completes and stores what it
  stores for coverage 0.9, the remapping of the image with coverage 0.9; the remapper called
  directly with coverage 0 raises \<^verbatim>\<open>ZeroDivisionError\<close>.
\<close>

theorem driver_coverage_fallback:
  assumes "coverage \<le> 0 \<or> 1 < coverage" "wf_image img" "fs file_in = Some img"
  shows "file_cyl2sph fs file_in file_out coverage = file_cyl2sph fs file_in file_out 0.9 \<and>
         (\<exists>out. img_cyl2sph img 0.9 = Inr out \<and>
            file_cyl2sph fs file_in file_out coverage = Inr (fs(file_out \<mapsto> out))) \<and>
         img_cyl2sph img 0 = Inl ZeroDivisionError"
proof -
  have eq: "file_cyl2sph fs file_in file_out coverage =
            ebind (img_cyl2sph img 0.9) (\<lambda>img2. Inr (fs(file_out \<mapsto> img2)))"
    using assms(1,3) by (auto simp add: file_cyl2sph_def)
  have eq9: "file_cyl2sph fs file_in file_out 0.9 =
            ebind (img_cyl2sph img 0.9) (\<lambda>img2. Inr (fs(file_out \<mapsto> img2)))"
    using assms(3) by (simp add: file_cyl2sph_def)
  obtain out where out: "img_cyl2sph img 0.9 = Inr out"
    using img_cyl2sph_ok[of "0.9" img] by auto
  show ?thesis
    using eq eq9 out img_cyl2sph_zero[of img] by simp
qed

theorem driver_coverage_fallback_witness:
  "wf_image white4 \<and> [''in.jpg'' \<mapsto> white4] ''in.jpg'' = Some white4 \<and>
   file_cyl2sph [''in.jpg'' \<mapsto> white4] ''in.jpg'' ''out.jpg'' 0 =
     file_cyl2sph [''in.jpg'' \<mapsto> white4] ''in.jpg'' ''out.jpg'' 0.9 \<and>
   file_cyl2sph [''in.jpg'' \<mapsto> white4] ''in.jpg'' ''out.jpg'' (- 1) =
     file_cyl2sph [''in.jpg'' \<mapsto> white4] ''in.jpg'' ''out.jpg'' 0.9 \<and>
   file_cyl2sph [''in.jpg'' \<mapsto> white4] ''in.jpg'' ''out.jpg'' 1.5 =
     file_cyl2sph [''in.jpg'' \<mapsto> white4] ''in.jpg'' ''out.jpg'' 0.9 \<and>
   (\<exists>out. img_cyl2sph white4 0.9 = Inr out \<and>
      file_cyl2sph [''in.jpg'' \<mapsto> white4] ''in.jpg'' ''out.jpg'' 1.5 =
        Inr ([''in.jpg'' \<mapsto> white4](''out.jpg'' \<mapsto> out))) \<and>
   img_cyl2sph white4 0 = Inl ZeroDivisionError"
proof -
  have w: "wf_image white4"
    by (simp add: white4_def wf_image_def list_all_length)
  have f: "[''in.jpg'' \<mapsto> white4] ''in.jpg'' = Some white4"
    by simp
  have c: "(0::real) \<le> 0 \<or> 1 < (0::real)" "(- 1::real) \<le> 0 \<or> 1 < (- 1::real)"
    "(1.5::real) \<le> 0 \<or> 1 < (1.5::real)"
    by simp_all
  from driver_coverage_fallback[of 0 white4 "[''in.jpg'' \<mapsto> white4]" "''in.jpg''" "''out.jpg''", OF c(1) w f]
    driver_coverage_fallback[of "- 1" white4 "[''in.jpg'' \<mapsto> white4]" "''in.jpg''" "''out.jpg''", OF c(2) w f]
    driver_coverage_fallback[of "1.5" white4 "[''in.jpg'' \<mapsto> white4]" "''in.jpg''" "''out.jpg''", OF c(3) w f]
    w f
  show ?thesis by blast
qed

end
